theory Spec2Isabelle
  imports Complex_Main "HOL-Library.Word"
begin

unbundle bit_operations_syntax

section \<open>Hardware environment\<close>

text \<open>
  The Arduino core is the environment of every class of the repository. It is modelled
  as a record that is passed through each call: a millisecond clock (the real time since
  boot, as a natural number: \<open>millis()\<close> is that clock truncated to 32 bits), the level
  last written to each GPIO pin, the list of all pin writes with the time of the write
  (newest first), and the lines printed on the serial port (newest first).

  The texts printed by the source are Chinese; each printed line is one constructor of
  \<open>msg\<close>, carrying the values the line prints.
\<close>

datatype level = LOW | HIGH

datatype msg =
    Relay_init "8 word" bool
  | Relay_opened "8 word"
  | Relay_closed "8 word"
  | Snap_trigger
  | I2S_not_initialized
  | I2S_not_rx
  | I2S_read_failed int

record hw =
  clock :: nat
  pins :: "8 word \<Rightarrow> level"
  writes :: "(nat \<times> 8 word \<times> level) list"
  serial :: "msg list"

definition digitalWrite :: "8 word \<Rightarrow> level \<Rightarrow> hw \<Rightarrow> hw" where
  "digitalWrite p v h = h\<lparr>pins := (pins h)(p := v), writes := (clock h, p, v) # writes h\<rparr>"

definition Serial_println :: "msg \<Rightarrow> hw \<Rightarrow> hw" where
  "Serial_println m h = h\<lparr>serial := m # serial h\<rparr>"

text \<open>\<open>delay(ms)\<close> blocks the only thread for \<open>ms\<close> milliseconds.\<close>

definition delay :: "nat \<Rightarrow> hw \<Rightarrow> hw" where
  "delay ms h = h\<lparr>clock := clock h + ms\<rparr>"

definition millis :: "hw \<Rightarrow> 32 word" where
  "millis h = of_nat (clock h)"


section \<open>Relay.h\<close>

record Relay =
  pin :: "8 word"
  state :: bool
  invertLogic :: bool

definition Relay_new :: "8 word \<Rightarrow> bool \<Rightarrow> Relay" where
  "Relay_new relayPin invert = \<lparr>pin = relayPin, state = False, invertLogic = invert\<rparr>"

definition Relay_on :: "Relay \<times> hw \<Rightarrow> Relay \<times> hw" where
  "Relay_on = (\<lambda>(r, h).
     (r\<lparr>state := True\<rparr>,
      Serial_println (Relay_opened (pin r))
        (digitalWrite (pin r) (if invertLogic r then LOW else HIGH) h)))"

definition Relay_off :: "Relay \<times> hw \<Rightarrow> Relay \<times> hw" where
  "Relay_off = (\<lambda>(r, h).
     (r\<lparr>state := False\<rparr>,
      Serial_println (Relay_closed (pin r))
        (digitalWrite (pin r) (if invertLogic r then HIGH else LOW) h)))"

text \<open>\<open>pinMode\<close> only configures the pin as an output; it writes no level.\<close>

definition Relay_begin :: "Relay \<times> hw \<Rightarrow> Relay \<times> hw" where
  "Relay_begin = (\<lambda>(r, h).
     (case Relay_off (r, h) of
        (r', h') \<Rightarrow> (r', Serial_println (Relay_init (pin r') (invertLogic r')) h')))"

definition Relay_toggle :: "Relay \<times> hw \<Rightarrow> Relay \<times> hw" where
  "Relay_toggle = (\<lambda>(r, h). if state r then Relay_off (r, h) else Relay_on (r, h))"

definition Relay_setState :: "bool \<Rightarrow> Relay \<times> hw \<Rightarrow> Relay \<times> hw" where
  "Relay_setState s = (\<lambda>(r, h). if s then Relay_on (r, h) else Relay_off (r, h))"

definition Relay_getState :: "Relay \<Rightarrow> bool" where
  "Relay_getState r = state r"

definition Relay_pulse :: "nat \<Rightarrow> Relay \<times> hw \<Rightarrow> Relay \<times> hw" where
  "Relay_pulse duration = (\<lambda>(r, h).
     (case Relay_on (r, h) of (r', h') \<Rightarrow> Relay_off (r', delay duration h')))"

text \<open>The pin level that stands for a recorded state: \<open>on()\<close> and \<open>off()\<close> write it.\<close>

definition level_for :: "Relay \<Rightarrow> bool \<Rightarrow> level" where
  "level_for r s = (if s then (if invertLogic r then LOW else HIGH)
                    else (if invertLogic r then HIGH else LOW))"


section \<open>I2SDevice.h\<close>

datatype i2s_device_type_t = DEVICE_MIC | DEVICE_SENSOR

type_synonym esp_err_t = int

definition ESP_OK :: esp_err_t where
  "ESP_OK = 0"

record I2SDevice =
  dev_type :: i2s_device_type_t
  sample_rate :: int
  channels :: int
  bits_per_sample :: nat
  ws_pin :: int
  sd_pin :: int
  sck_pin :: int
  port :: nat
  initialized :: bool
  rx_mode :: bool

definition I2SDevice_new ::
  "i2s_device_type_t \<Rightarrow> int \<Rightarrow> int \<Rightarrow> nat \<Rightarrow> int \<Rightarrow> int \<Rightarrow> int \<Rightarrow> nat \<Rightarrow> I2SDevice" where
  "I2SDevice_new t sr ch bps ws sd sck p =
     \<lparr>dev_type = t, sample_rate = sr, channels = ch, bits_per_sample = bps,
      ws_pin = ws, sd_pin = sd, sck_pin = sck, port = p,
      initialized = False, rx_mode = (t = DEVICE_MIC)\<rparr>"

text \<open>
  The ESP-IDF driver call \<open>i2s_read\<close> is outside the repository, so it is a parameter
  of the model: from the driver's own state and the arguments of the call (port, buffer,
  size, ticks to wait) it gives the new driver state, the status, the count it stores
  through the \<open>bytes_read\<close> pointer (\<open>None\<close> when it returns without storing) and the
  contents of the buffer afterwards. The environment keeps the driver state and the list
  of \<open>i2s_read\<close> calls made so far (port, size, ticks), newest first.
\<close>

type_synonym 'd i2s_read_t =
  "'d \<Rightarrow> nat \<Rightarrow> 8 word list \<Rightarrow> 32 word \<Rightarrow> 32 word
     \<Rightarrow> 'd \<times> esp_err_t \<times> 32 word option \<times> 8 word list"

record 'd i2s_env =
  driver :: 'd
  i2s_reads :: "(nat \<times> 32 word \<times> 32 word) list"

definition I2SDevice_read ::
  "'d i2s_read_t \<Rightarrow> 8 word list \<Rightarrow> 32 word \<Rightarrow> 32 word
     \<Rightarrow> I2SDevice \<times> 'd i2s_env \<times> hw
     \<Rightarrow> 32 word \<times> 8 word list \<times> I2SDevice \<times> 'd i2s_env \<times> hw" where
  "I2SDevice_read i2s_read buf sz ticks_to_wait = (\<lambda>(dev, env, h).
     if \<not> initialized dev then
       (0, buf, dev, env, Serial_println I2S_not_initialized h)
     else if \<not> rx_mode dev then
       (0, buf, dev, env, Serial_println I2S_not_rx h)
     else
       (case i2s_read (driver env) (port dev) buf sz ticks_to_wait of
          (d', ret, stored, buf') \<Rightarrow>
            (case stored of None \<Rightarrow> 0 | Some n \<Rightarrow> n,
             buf',
             dev,
             env\<lparr>driver := d', i2s_reads := (port dev, sz, ticks_to_wait) # i2s_reads env\<rparr>,
             if ret \<noteq> ESP_OK then Serial_println (I2S_read_failed ret) h else h)))"

definition I2SDevice_toggleMode :: "bool \<Rightarrow> I2SDevice \<Rightarrow> I2SDevice" where
  "I2SDevice_toggleMode to_rx dev = (if initialized dev then dev else dev\<lparr>rx_mode := to_rx\<rparr>)"


section \<open>sound.h\<close>

definition SAMPLE_RATE :: nat where
  "SAMPLE_RATE = 16000"

definition SAMPLES :: nat where
  "SAMPLES = 512"

text \<open>
  The globals of the sketch. A \<open>float\<close> is modelled as a real number: every value the
  sketch itself computes (a 16-bit integer cast to \<open>float\<close>, a bin index below 256 times
  31.25) is represented exactly, and everything else it does with floats is comparison.
\<close>

record sketch =
  relay :: Relay
  vReal :: "real list"
  vImag :: "real list"
  lastSnapTime :: "32 word"
  snapCount :: "32 word"

text \<open>
  What one call of \<open>i2s_read\<close> in \<open>loop\<close> hands back: its status, the byte count stored
  in \<open>bytesRead\<close>, the contents of the local \<open>buffer\<close> after the call, and the time the
  call blocked. \<open>t_fft\<close> is the time the three library calls on \<open>FFT\<close> take.
\<close>

record frame_in =
  i2s_ret :: esp_err_t
  bytesRead :: "32 word"
  samples :: "32 word list"
  t_read :: nat
  t_fft :: nat

text \<open>
  Lines 62 to 66. \<open>buffer[i] >> 14\<close> is the arithmetic shift of a signed 32-bit word;
  storing it in an \<open>int16_t\<close> keeps its low 16 bits; the cast to \<open>float\<close> is exact.
\<close>

definition sample16 :: "32 word \<Rightarrow> 16 word" where
  "sample16 w = ucast (signed_drop_bit 14 w)"

definition to_float :: "16 word \<Rightarrow> real" where
  "to_float x = real_of_int (sint x)"

definition preprocess :: "32 word list \<Rightarrow> real list \<times> real list \<Rightarrow> real list \<times> real list" where
  "preprocess buf =
     fold (\<lambda>i (re, im). (re[i := to_float (sample16 (buf ! i))], im[i := 0])) [0..<SAMPLES]"

text \<open>
  The \<open>arduinoFFT\<close> object works in place on \<open>vReal\<close> and \<open>vImag\<close>; the three calls
  \<open>windowing\<close>, \<open>compute\<close>, \<open>complexToMagnitude\<close> together are a parameter of \<open>loop\<close>.
\<close>

type_synonym analyzer = "real list \<times> real list \<Rightarrow> real list \<times> real list"

text \<open>Lines 72 to 79.\<close>

definition find_peak :: "real list \<Rightarrow> real \<times> nat" where
  "find_peak v =
     fold (\<lambda>i (peak, peakIndex). if v ! i > peak then (v ! i, i) else (peak, peakIndex))
       [1..<SAMPLES div 2] (0, 0)"

text \<open>Line 81.\<close>

definition dominantFreq :: "nat \<Rightarrow> real" where
  "dominantFreq peakIndex = real peakIndex * (real SAMPLE_RATE / real SAMPLES)"

text \<open>Line 84.\<close>

definition isSnap :: "real \<Rightarrow> real \<Rightarrow> bool" where
  "isSnap freq peak = (freq > 2000 \<and> freq < 5000 \<and> peak > 6000)"

text \<open>Lines 86 to 99: the \<open>if (isSnap)\<close> block and the closing \<open>delay(20)\<close>.\<close>

definition trigger :: "bool \<Rightarrow> sketch \<times> hw \<Rightarrow> sketch \<times> hw" where
  "trigger snap = (\<lambda>(s, h).
     (case (if snap then
              (let now = millis h;
                   h1 = Serial_println Snap_trigger h
               in case Relay_toggle (relay s, h1) of
                    (r, h2) \<Rightarrow> (s\<lparr>relay := r, snapCount := 0\<rparr>, delay 300 h2))
            else (s, h)) of
        (s', h') \<Rightarrow> (s', delay 20 h')))"

text \<open>The spectrum of the frame a cycle reads, and the classification of that frame.\<close>

definition spectrum :: "analyzer \<Rightarrow> frame_in \<Rightarrow> sketch \<Rightarrow> real list \<times> real list" where
  "spectrum FFT inp s = FFT (preprocess (samples inp) (vReal s, vImag s))"

definition frame_isSnap :: "analyzer \<Rightarrow> frame_in \<Rightarrow> sketch \<Rightarrow> bool" where
  "frame_isSnap FFT inp s =
     (case find_peak (fst (spectrum FFT inp s)) of
        (peak, peakIndex) \<Rightarrow> isSnap (dominantFreq peakIndex) peak)"

text \<open>
  One pass of \<open>loop()\<close>. The time the blocking read and the library calls take is
  added to the clock. Neither the status of \<open>i2s_read\<close> nor \<open>bytesRead\<close> is read
  after the call; \<open>now\<close> in \<open>trigger\<close> is assigned and never used.
\<close>

definition loop :: "analyzer \<Rightarrow> frame_in \<Rightarrow> sketch \<times> hw \<Rightarrow> sketch \<times> hw" where
  "loop FFT inp = (\<lambda>(s, h).
     (let h1 = delay (t_read inp) h;
          (re, im) = spectrum FFT inp s;
          h2 = delay (t_fft inp) h1;
          (peak, peakIndex) = find_peak re;
          snap = isSnap (dominantFreq peakIndex) peak
      in trigger snap (s\<lparr>vReal := re, vImag := im\<rparr>, h2)))"

fun run :: "analyzer \<Rightarrow> frame_in list \<Rightarrow> sketch \<times> hw \<Rightarrow> sketch \<times> hw" where
  "run FFT [] w = w"
| "run FFT (inp # inps) w = run FFT inps (loop FFT inp w)"

text \<open>The globals as initialised, and the start-up function of the sketch as far as it touches them.\<close>

definition sketch_init :: sketch where
  "sketch_init = \<lparr>relay = Relay_new 20 False, vReal = replicate SAMPLES 0,
                  vImag = replicate SAMPLES 0, lastSnapTime = 0, snapCount = 0\<rparr>"

definition sketch_setup :: "sketch \<times> hw \<Rightarrow> sketch \<times> hw" where
  "sketch_setup = (\<lambda>(s, h).
     (case Relay_off (Relay_begin (relay s, h)) of (r, h') \<Rightarrow> (s\<lparr>relay := r\<rparr>, h')))"

definition hw_boot :: hw where
  "hw_boot = \<lparr>clock = 0, pins = (\<lambda>_. LOW), writes = [], serial = []\<rparr>"

text \<open>The times of the pin writes made after the environment was \<open>h0\<close>, newest first.\<close>

definition fired_since :: "hw \<Rightarrow> hw \<Rightarrow> nat list" where
  "fired_since h0 h = map fst (take (length (writes h) - length (writes h0)) (writes h))"


text \<open>
  The controller part of one cycle at the level of what it consumes: \<open>d\<close> is the time
  acquisition and analysis take, \<open>snap\<close> the classifier's verdict on the frame.
\<close>

definition cycle :: "nat \<times> bool \<Rightarrow> sketch \<times> hw \<Rightarrow> sketch \<times> hw" where
  "cycle = (\<lambda>(d, snap) (s, h). trigger snap (s, delay d h))"


section \<open>The spectral analyzer and the debounce controller as the specification words them\<close>

text \<open>
  Modelled from the spec: the spectral analyzer (section 4.3), which the sketch takes
  from the \<open>arduinoFFT\<close> library; the library is not under the repository's sources.
  A Hamming window on the real array, the forward discrete Fourier transform of the
  complex input, and the Euclidean norm of each bin written back to the real array,
  all in exact real arithmetic.
\<close>

definition hamming :: "nat \<Rightarrow> nat \<Rightarrow> real" where
  "hamming N i = 0.54 - 0.46 * cos (2 * pi * real i / real (N - 1))"

definition dft_re :: "real list \<Rightarrow> real list \<Rightarrow> nat \<Rightarrow> real" where
  "dft_re re im k =
     (\<Sum>n<length re. re ! n * cos (2 * pi * real k * real n / real (length re))
                      + im ! n * sin (2 * pi * real k * real n / real (length re)))"

definition dft_im :: "real list \<Rightarrow> real list \<Rightarrow> nat \<Rightarrow> real" where
  "dft_im re im k =
     (\<Sum>n<length re. im ! n * cos (2 * pi * real k * real n / real (length re))
                      - re ! n * sin (2 * pi * real k * real n / real (length re)))"

definition analyze :: analyzer where
  "analyze = (\<lambda>(re, im).
     (let N = length re;
          w = map (\<lambda>i. hamming N i * re ! i) [0..<N]
      in (map (\<lambda>k. sqrt ((dft_re w im k)\<^sup>2 + (dft_im w im k)\<^sup>2)) [0..<N],
          map (dft_im w im) [0..<N])))"

text \<open>
  An analyzer that answers every frame with one given spectrum. It stands in for the
  library wherever a concrete run is exhibited; \<open>snap_spectrum\<close> has its only peak,
  of magnitude 7000, in bin 100 (3125 Hz).
\<close>

definition fixed_spectrum :: "real list \<Rightarrow> analyzer" where
  "fixed_spectrum v = (\<lambda>_. (v, replicate SAMPLES 0))"

definition snap_spectrum :: "real list" where
  "snap_spectrum = (replicate SAMPLES 0)[100 := 7000]"

text \<open>A spectrum whose maximum, 9000, is taken in two bins, 70 and 120.\<close>

definition tie_spectrum :: "real list" where
  "tie_spectrum = (replicate SAMPLES 0)[70 := 9000, 120 := 9000]"

text \<open>
  The debounce controller in the words of the specification (section 4.6), for comparison
  with \<open>trigger\<close>: two states; at the start of a cycle a refractory controller whose
  cooldown began more than 300 ms ago becomes armed; the classifier's verdict is then
  taken; an armed controller fires on a positive verdict and records the cycle's
  timestamp, a refractory one discards the verdict. The result is the new controller
  state and whether the actuator fires. Cycles are paced by the blocking read alone.
\<close>

datatype debounce = Armed | Refractory nat

definition spec_cycle :: "nat \<Rightarrow> nat \<Rightarrow> bool \<Rightarrow> debounce \<Rightarrow> debounce \<times> bool" where
  "spec_cycle start now snap c =
     (case (case c of Armed \<Rightarrow> Armed
                    | Refractory t0 \<Rightarrow> if start - t0 > 300 then Armed else Refractory t0) of
        Armed \<Rightarrow> if snap then (Refractory now, True) else (Armed, False)
      | Refractory t0 \<Rightarrow> (Refractory t0, False))"

fun spec_run :: "(nat \<times> bool) list \<Rightarrow> nat \<Rightarrow> debounce \<Rightarrow> nat list" where
  "spec_run [] t c = []"
| "spec_run ((d, snap) # cs) t c =
     (case spec_cycle t (t + d) snap c of
        (c', fire) \<Rightarrow> (if fire then [t + d] else []) @ spec_run cs (t + d) c')"


section \<open>Auxiliary notions for the proofs\<close>

text \<open>The body of each \<open>for\<close> statement of \<open>loop\<close>, and the invariant of the peak scan.\<close>

definition pre_step ::
  "32 word list \<Rightarrow> nat \<Rightarrow> real list \<times> real list \<Rightarrow> real list \<times> real list" where
  "pre_step buf = (\<lambda>i (re, im). (re[i := to_float (sample16 (buf ! i))], im[i := 0]))"

definition peak_step :: "real list \<Rightarrow> nat \<Rightarrow> real \<times> nat \<Rightarrow> real \<times> nat" where
  "peak_step v = (\<lambda>i (peak, peakIndex). if v ! i > peak then (v ! i, i) else (peak, peakIndex))"

definition peak_inv :: "real list \<Rightarrow> nat \<Rightarrow> real \<times> nat \<Rightarrow> bool" where
  "peak_inv v n = (\<lambda>(p, k).
     (k = 0 \<and> p = 0 \<and> (\<forall>i\<in>{1..<n}. v ! i \<le> 0))
     \<or> (1 \<le> k \<and> k < n \<and> p = v ! k \<and> 0 < p
        \<and> (\<forall>i\<in>{1..<n}. v ! i \<le> p) \<and> (\<forall>i\<in>{1..<k}. v ! i < p)))"


section \<open>The stages of the cycle\<close>

subsection \<open>Preprocessing\<close>

lemma fold_pre_step:
  "n \<le> length re \<Longrightarrow> n \<le> length im \<Longrightarrow>
   fold (pre_step buf) [0..<n] (re, im)
     = (map (\<lambda>i. to_float (sample16 (buf ! i))) [0..<n] @ drop n re, replicate n 0 @ drop n im)"
proof (induction n)
  case 0
  show ?case by simp
next
  case (Suc n)
  then have IH: "fold (pre_step buf) [0..<n] (re, im)
     = (map (\<lambda>i. to_float (sample16 (buf ! i))) [0..<n] @ drop n re, replicate n 0 @ drop n im)"
    by simp
  have a: "(xs @ drop n re)[n := x] = xs @ [x] @ drop (Suc n) re" if "length xs = n" for xs and x :: real
  proof -
    have "drop n re = re ! n # drop (Suc n) re" using Suc.prems(1) by (simp add: Cons_nth_drop_Suc)
    then show ?thesis using that by (simp add: list_update_append)
  qed
  have b: "(xs @ drop n im)[n := x] = xs @ [x] @ drop (Suc n) im" if "length xs = n" for xs and x :: real
  proof -
    have "drop n im = im ! n # drop (Suc n) im" using Suc.prems(2) by (simp add: Cons_nth_drop_Suc)
    then show ?thesis using that by (simp add: list_update_append)
  qed
  have "fold (pre_step buf) [0..<Suc n] (re, im) = pre_step buf n (fold (pre_step buf) [0..<n] (re, im))"
    by simp
  also have "\<dots> = pre_step buf n (map (\<lambda>i. to_float (sample16 (buf ! i))) [0..<n] @ drop n re, replicate n 0 @ drop n im)"
    by (simp only: IH)
  also have "\<dots> = (map (\<lambda>i. to_float (sample16 (buf ! i))) [0..<Suc n] @ drop (Suc n) re, replicate (Suc n) 0 @ drop (Suc n) im)"
    by (simp add: pre_step_def a b replicate_append_same)
  finally show ?case .
qed

lemma preprocess_eq:
  assumes "length re = SAMPLES" "length im = SAMPLES"
  shows "preprocess buf (re, im)
     = (map (\<lambda>i. to_float (sample16 (buf ! i))) [0..<SAMPLES], replicate SAMPLES 0)"
  using fold_pre_step [of SAMPLES re im buf] assms
  by (simp add: preprocess_def pre_step_def)

lemma sample16_in_range:
  "- (2 ^ 15) \<le> sint (signed_drop_bit 14 w) \<Longrightarrow> sint (signed_drop_bit 14 w) < 2 ^ 15 \<Longrightarrow>
   to_float (sample16 w) = real_of_int (sint (signed_drop_bit 14 (w :: 32 word)))"
proof -
  assume r: "- (2 ^ 15) \<le> sint (signed_drop_bit 14 w)" "sint (signed_drop_bit 14 w) < 2 ^ 15"
  let ?x = "signed_drop_bit 14 w"
  have "sint (ucast ?x :: 16 word) = signed_take_bit 15 (uint ?x)"
    by (simp add: signed_ucast_eq)
  also have "\<dots> = signed_take_bit 15 (sint ?x)"
    by (simp add: sint_uint)
  also have "\<dots> = sint ?x"
    using r by (simp add: signed_take_bit_int_eq_self)
  finally show ?thesis by (simp add: to_float_def sample16_def)
qed

subsection \<open>Peak scan\<close>

lemma peak_inv_bound: "peak_inv v n (p, k) \<Longrightarrow> i \<in> {1..<n} \<Longrightarrow> v ! i \<le> p \<and> 0 \<le> p"
  by (auto simp: peak_inv_def)

lemma peak_inv_step:
  assumes "peak_inv v n pk" "1 \<le> n"
  shows "peak_inv v (Suc n) (peak_step v n pk)"
proof -
  obtain p k where pk: "pk = (p, k)" by (cases pk)
  have bound: "\<forall>i\<in>{1..<n}. v ! i \<le> p" using peak_inv_bound assms(1) pk by blast
  have p0: "0 \<le> p" using assms(1) pk by (auto simp: peak_inv_def)
  show ?thesis
  proof (cases "v ! n > p")
    case True
    then have lt: "\<forall>i\<in>{1..<n}. v ! i < v ! n" using bound by fastforce
    then have le: "\<forall>i\<in>{1..<n}. v ! i \<le> v ! n" by fastforce
    have "peak_step v n pk = (v ! n, n)" using True pk by (simp add: peak_step_def)
    moreover have "peak_inv v (Suc n) (v ! n, n)"
      using True p0 assms(2) lt le by (auto simp: peak_inv_def less_Suc_eq)
    ultimately show ?thesis by simp
  next
    case False
    then have "peak_step v n pk = (p, k)" using pk by (simp add: peak_step_def)
    moreover have "peak_inv v (Suc n) (p, k)"
      using False assms pk by (auto simp: peak_inv_def less_Suc_eq)
    ultimately show ?thesis by simp
  qed
qed

lemma fold_peak_inv: "peak_inv v (Suc n) (fold (peak_step v) [1..<Suc n] (0, 0))"
proof (induction n)
  case 0
  show ?case by (simp add: peak_inv_def)
next
  case (Suc n)
  have "fold (peak_step v) [1..<Suc (Suc n)] (0, 0)
        = peak_step v (Suc n) (fold (peak_step v) [1..<Suc n] (0, 0))"
    by simp
  then show ?case using peak_inv_step [OF Suc] by simp
qed

lemma find_peak_inv: "peak_inv v (SAMPLES div 2) (find_peak v)"
proof -
  have "SAMPLES div 2 = Suc 255" by (simp add: SAMPLES_def)
  then show ?thesis
    using fold_peak_inv [of v 255] by (simp add: find_peak_def peak_step_def)
qed


lemma find_peak_zero: "find_peak (replicate SAMPLES 0) = (0, 0)"
proof -
  obtain p k where pk: "find_peak (replicate SAMPLES 0) = (p, k)" by (cases "find_peak (replicate SAMPLES 0)")
  have "peak_inv (replicate SAMPLES 0) (SAMPLES div 2) (p, k)" using find_peak_inv [of "replicate SAMPLES 0"] pk by simp
  then have "k = 0 \<and> p = 0" by (auto simp: peak_inv_def SAMPLES_def)
  then show ?thesis using pk by simp
qed

lemma find_peak_snap_spectrum: "find_peak snap_spectrum = (7000, 100)"
proof -
  obtain p k where pk: "find_peak snap_spectrum = (p, k)" by (cases "find_peak snap_spectrum")
  have inv: "peak_inv snap_spectrum (SAMPLES div 2) (p, k)" using find_peak_inv [of snap_spectrum] pk by simp
  have v100: "snap_spectrum ! 100 = 7000" by (simp add: snap_spectrum_def SAMPLES_def)
  have "(100::nat) \<in> {1..<SAMPLES div 2}" by (simp add: SAMPLES_def)
  then have "snap_spectrum ! 100 \<le> p" using peak_inv_bound [OF inv] by blast
  then have p: "7000 \<le> p" using v100 by simp
  then have k: "p = snap_spectrum ! k" "k < SAMPLES div 2" using inv by (auto simp: peak_inv_def)
  have "k = 100"
  proof (rule ccontr)
    assume "k \<noteq> 100"
    then have "snap_spectrum ! k = 0" using k(2) by (simp add: snap_spectrum_def SAMPLES_def)
    then show False using p k(1) by simp
  qed
  then show ?thesis using pk k(1) v100 by simp
qed

subsection \<open>Analyzer, trigger and cycle\<close>

lemma dft_zero: "dft_re (map (\<lambda>i. c i * (replicate n 0) ! i) [0..<n]) (replicate n 0) k = 0"
  "dft_im (map (\<lambda>i. c i * (replicate n 0) ! i) [0..<n]) (replicate n 0) k = 0"
  by (simp_all add: dft_re_def dft_im_def)

lemma dft_im_zero_fun:
  "dft_im (map (\<lambda>i. c i * (replicate n 0) ! i) [0..<n]) (replicate n 0) = (\<lambda>k. 0)"
  by (rule ext) (rule dft_zero)

lemma analyze_zero: "analyze (replicate n 0, replicate n 0) = (replicate n 0, replicate n 0)"
  by (simp add: analyze_def Let_def dft_zero dft_im_zero_fun map_replicate_const)

lemma trigger_hw:
  "snd (trigger snap (s, h)) =
     (if snap then
        h\<lparr>clock := clock h + 320,
          pins := (pins h)(pin (relay s) := level_for (relay s) (\<not> state (relay s))),
          writes := (clock h, pin (relay s), level_for (relay s) (\<not> state (relay s))) # writes h,
          serial := (if state (relay s) then Relay_closed (pin (relay s)) else Relay_opened (pin (relay s)))
                     # Snap_trigger # serial h\<rparr>
      else h\<lparr>clock := clock h + 20\<rparr>)"
  by (simp add: trigger_def Relay_toggle_def Relay_on_def Relay_off_def digitalWrite_def
      Serial_println_def delay_def level_for_def Let_def)

lemma trigger_sketch:
  "fst (trigger snap (s, h)) =
     (if snap then s\<lparr>relay := (relay s)\<lparr>state := \<not> state (relay s)\<rparr>, snapCount := 0\<rparr> else s)"
  by (simp add: trigger_def Relay_toggle_def Relay_on_def Relay_off_def Let_def)

lemma loop_cycle:
  "loop FFT inp (s, h) =
     cycle (t_read inp + t_fft inp, frame_isSnap FFT inp s)
       (s\<lparr>vReal := fst (spectrum FFT inp s), vImag := snd (spectrum FFT inp s)\<rparr>, h)"
  by (simp add: loop_def cycle_def frame_isSnap_def delay_def Let_def add.assoc split: prod.splits)


section \<open>Relay\<close>

lemma Relay_toggle_fst: "fst (Relay_toggle (r, h)) = r\<lparr>state := \<not> state r\<rparr>"
  by (simp add: Relay_toggle_def Relay_on_def Relay_off_def)

lemma Relay_toggle_pins:
  "pins (snd (Relay_toggle (r, h))) = (pins h)(pin r := level_for r (\<not> state r))"
  by (simp add: Relay_toggle_def Relay_on_def Relay_off_def level_for_def
      digitalWrite_def Serial_println_def)

lemma Relay_toggle_branch:
  "Relay_toggle (r, h) = (if state r then Relay_off (r, h) else Relay_on (r, h))"
  by (simp add: Relay_toggle_def)

lemma Relay_toggle_twice_fst: "fst (Relay_toggle (Relay_toggle (r, h))) = r"
proof -
  obtain r1 h1 where t1: "Relay_toggle (r, h) = (r1, h1)" by (cases "Relay_toggle (r, h)")
  have r1: "r1 = r\<lparr>state := \<not> state r\<rparr>" using Relay_toggle_fst [of r h] t1 by simp
  have "fst (Relay_toggle (r1, h1)) = r" unfolding Relay_toggle_fst r1 by simp
  then show ?thesis by (simp add: t1)
qed

lemma Relay_toggle_twice_pins:
  "pins (snd (Relay_toggle (Relay_toggle (r, h)))) (pin r) = level_for r (state r)"
proof -
  obtain r1 h1 where t1: "Relay_toggle (r, h) = (r1, h1)" by (cases "Relay_toggle (r, h)")
  have r1: "r1 = r\<lparr>state := \<not> state r\<rparr>" using Relay_toggle_fst [of r h] t1 by simp
  have "pins (snd (Relay_toggle (r1, h1))) (pin r) = level_for r (state r)"
    unfolding Relay_toggle_pins r1 by (simp add: level_for_def)
  then show ?thesis by (simp add: t1)
qed

text \<open>
  Claim C9. From every relay state and environment, \<open>toggle\<close> takes the branch \<open>off()\<close>
  exactly when the recorded state is on and \<open>on()\<close> exactly when it is off, so the
  recorded state is negated and the pin is written with the level of the new state;
  two calls of \<open>toggle\<close> give back the original relay object, and the level last written
  to its pin is the level that stands for the original state.
\<close>

theorem Relay_toggle_involution:
  "Relay_toggle (r, h) = (if state r then Relay_off (r, h) else Relay_on (r, h))
   \<and> state (fst (Relay_toggle (r, h))) = (\<not> state r)
   \<and> pins (snd (Relay_toggle (r, h))) (pin r) = level_for r (\<not> state r)
   \<and> fst (Relay_toggle (Relay_toggle (r, h))) = r
   \<and> pins (snd (Relay_toggle (Relay_toggle (r, h)))) (pin r) = level_for r (state r)"
proof (intro conjI)
  show "Relay_toggle (r, h) = (if state r then Relay_off (r, h) else Relay_on (r, h))"
    by (rule Relay_toggle_branch)
  show "state (fst (Relay_toggle (r, h))) = (\<not> state r)"
    by (simp add: Relay_toggle_fst)
  show "pins (snd (Relay_toggle (r, h))) (pin r) = level_for r (\<not> state r)"
    by (simp add: Relay_toggle_pins)
  show "fst (Relay_toggle (Relay_toggle (r, h))) = r"
    by (rule Relay_toggle_twice_fst)
  show "pins (snd (Relay_toggle (Relay_toggle (r, h)))) (pin r) = level_for r (state r)"
    by (rule Relay_toggle_twice_pins)
qed


section \<open>I2SDevice\<close>

text \<open>
  Claim C10. For every buffer, size and wait, \<open>read\<close> on a device that is not
  initialized or not in RX mode returns 0 and leaves the buffer, the device and the
  driver environment (its state and its list of \<open>i2s_read\<close> calls) as they were; on a
  device that is initialized and in RX mode it makes exactly one \<open>i2s_read\<close> call with
  the device's port and the given arguments, returns the count the driver stored, and
  leaves the device unchanged.
\<close>

theorem I2SDevice_read_guard:
  "(\<not> initialized dev \<or> \<not> rx_mode dev \<longrightarrow>
      (\<exists>h'. I2SDevice_read i2s_read buf sz ticks (dev, env, h) = (0, buf, dev, env, h')))
   \<and> (initialized dev \<and> rx_mode dev \<longrightarrow>
      (\<exists>d' ret stored buf' h'.
         i2s_read (driver env) (port dev) buf sz ticks = (d', ret, stored, buf')
         \<and> I2SDevice_read i2s_read buf sz ticks (dev, env, h) =
             (case stored of None \<Rightarrow> 0 | Some n \<Rightarrow> n, buf', dev,
              env\<lparr>driver := d', i2s_reads := (port dev, sz, ticks) # i2s_reads env\<rparr>, h')))"
  by (cases "i2s_read (driver env) (port dev) buf sz ticks") (auto simp: I2SDevice_read_def)

theorem I2SDevice_read_guard_witness:
  "\<not> initialized (I2SDevice_new DEVICE_MIC 16000 1 16 25 33 32 0)
   \<and> (\<exists>h'. I2SDevice_read (\<lambda>d p b sz t. (Suc d, 0, Some 4, [1, 2, 3, 4])) [] 4 0
              (I2SDevice_new DEVICE_MIC 16000 1 16 25 33 32 0,
               \<lparr>driver = 0, i2s_reads = []\<rparr>, hw_boot)
            = (0, [], I2SDevice_new DEVICE_MIC 16000 1 16 25 33 32 0,
               \<lparr>driver = 0, i2s_reads = []\<rparr>, h'))
   \<and> initialized ((I2SDevice_new DEVICE_MIC 16000 1 16 25 33 32 0)\<lparr>initialized := True\<rparr>)
   \<and> rx_mode ((I2SDevice_new DEVICE_MIC 16000 1 16 25 33 32 0)\<lparr>initialized := True\<rparr>)
   \<and> (\<exists>h'. I2SDevice_read (\<lambda>d p b sz t. (Suc d, 0, Some 4, [1, 2, 3, 4])) [] 4 0
              ((I2SDevice_new DEVICE_MIC 16000 1 16 25 33 32 0)\<lparr>initialized := True\<rparr>,
               \<lparr>driver = 0, i2s_reads = []\<rparr>, hw_boot)
            = (4, [1, 2, 3, 4],
               (I2SDevice_new DEVICE_MIC 16000 1 16 25 33 32 0)\<lparr>initialized := True\<rparr>,
               \<lparr>driver = Suc 0, i2s_reads = [(0, 4, 0)]\<rparr>, h'))"
  using I2SDevice_read_guard
          [of "I2SDevice_new DEVICE_MIC 16000 1 16 25 33 32 0"
              "\<lambda>d p b sz t. (Suc d, 0, Some 4, [1, 2, 3, 4])" "[]" 4 0
              "\<lparr>driver = 0, i2s_reads = []\<rparr>" hw_boot]
        I2SDevice_read_guard
          [of "(I2SDevice_new DEVICE_MIC 16000 1 16 25 33 32 0)\<lparr>initialized := True\<rparr>"
              "\<lambda>d p b sz t. (Suc d, 0, Some 4, [1, 2, 3, 4])" "[]" 4 0
              "\<lparr>driver = 0, i2s_reads = []\<rparr>" hw_boot]
  by (simp add: I2SDevice_new_def)


section \<open>The classifier\<close>

lemma dominantFreq_val: "dominantFreq k = real k * 31.25"
  by (simp add: dominantFreq_def SAMPLE_RATE_def SAMPLES_def)

text \<open>
  Claim C3. The classifier is true exactly for a dominant frequency strictly between
  2000 and 5000 Hz together with a peak strictly above 6000. A frequency on a band edge
  is rejected whatever the peak; the edges are the frequencies of bins 64 and 160, so
  in terms of the peak bin the classifier holds exactly for bins 65 to 159.
\<close>

theorem isSnap_open_band:
  "isSnap freq peak = (freq \<in> {2000 <..< 5000} \<and> 6000 < peak)
   \<and> \<not> isSnap 5000 peak \<and> \<not> isSnap 2000 peak
   \<and> dominantFreq 160 = 5000 \<and> dominantFreq 64 = 2000
   \<and> isSnap (dominantFreq k) peak = (64 < k \<and> k < 160 \<and> 6000 < peak)"
  by (auto simp: isSnap_def dominantFreq_val)


section \<open>The frame preprocessor\<close>

lemma sample16_val_7000: "to_float (sample16 114688000) = 7000"
  by (simp add: to_float_def sample16_def)

lemma sample16_val_wrap: "to_float (sample16 0x20000000) = - 32768"
  by (simp add: to_float_def sample16_def)

lemma sample16_zero: "to_float (sample16 0) = 0"
  by (simp add: to_float_def sample16_def)

lemma preprocess_replicate:
  assumes "length re = SAMPLES" "length im = SAMPLES"
  shows "preprocess (replicate SAMPLES c) (re, im)
           = (replicate SAMPLES (to_float (sample16 c)), replicate SAMPLES 0)"
proof -
  have "map (\<lambda>i. to_float (sample16 (replicate SAMPLES c ! i))) [0..<SAMPLES]
          = replicate SAMPLES (to_float (sample16 c))"
    by (rule nth_equalityI) simp_all
  then show ?thesis
    using preprocess_eq [OF assms, of "replicate SAMPLES c"] by simp
qed

text \<open>
  Claim C6, as the code has it. On the two arrays of 512 floats, preprocessing stores in
  \<open>vReal[i]\<close> the raw word shifted right arithmetically by 14, narrowed to a signed
  16-bit integer (its low 16 bits) and then cast to float, and stores zero in every
  element of \<open>vImag\<close>. Where the shifted word lies in the 16-bit range, that is the
  plain shift and cast.
\<close>

theorem preprocess_shift_narrow_cast:
  "length re = SAMPLES \<Longrightarrow> length im = SAMPLES \<Longrightarrow>
     preprocess buf (re, im)
       = (map (\<lambda>i. real_of_int (sint (ucast (signed_drop_bit 14 (buf ! i)) :: 16 word)))
            [0..<SAMPLES],
          replicate SAMPLES 0)
     \<and> (\<forall>i<SAMPLES.
          - (2 ^ 15) \<le> sint (signed_drop_bit 14 (buf ! i))
          \<and> sint (signed_drop_bit 14 (buf ! i)) < 2 ^ 15 \<longrightarrow>
          fst (preprocess buf (re, im)) ! i = real_of_int (sint (signed_drop_bit 14 (buf ! i))))"
proof -
  assume len: "length re = SAMPLES" "length im = SAMPLES"
  have eq: "preprocess buf (re, im)
       = (map (\<lambda>i. to_float (sample16 (buf ! i))) [0..<SAMPLES], replicate SAMPLES 0)"
    by (rule preprocess_eq [OF len])
  have "fst (preprocess buf (re, im)) ! i = real_of_int (sint (signed_drop_bit 14 (buf ! i)))"
    if "i < SAMPLES" "- (2 ^ 15) \<le> sint (signed_drop_bit 14 (buf ! i))"
       "sint (signed_drop_bit 14 (buf ! i)) < 2 ^ 15" for i
    using that by (simp add: eq sample16_in_range)
  then show ?thesis
    using eq by (simp add: to_float_def sample16_def)
qed

theorem preprocess_shift_narrow_cast_witness:
  "length (replicate SAMPLES (0::real)) = SAMPLES
   \<and> preprocess (replicate SAMPLES 114688000) (replicate SAMPLES 0, replicate SAMPLES 0)
       = (replicate SAMPLES 7000, replicate SAMPLES 0)
   \<and> sint (signed_drop_bit 14 (114688000 :: 32 word)) = 7000"
proof -
  have len: "length (replicate SAMPLES (0::real)) = SAMPLES" by simp
  have v: "real_of_int (sint (ucast (signed_drop_bit 14 (114688000 :: 32 word)) :: 16 word)) = 7000"
    by simp
  have "map (\<lambda>i. real_of_int (sint (ucast (signed_drop_bit 14 (replicate SAMPLES (114688000 :: 32 word) ! i)) :: 16 word))) [0..<SAMPLES]
        = replicate SAMPLES 7000"
    by (rule nth_equalityI) simp_all
  then show ?thesis
    using preprocess_shift_narrow_cast [OF len len, of "replicate SAMPLES 114688000"] by simp
qed

text \<open>
  Claim C6 as stated, shift and cast with nothing between, fails on the raw word
  \<open>0x20000000\<close>: shifted by 14 it is 32768, and the sketch stores \<open>-32768\<close>.
\<close>

theorem preprocess_plain_shift_counterexample:
  "fst (preprocess (replicate SAMPLES 0x20000000) (replicate SAMPLES 0, replicate SAMPLES 0)) ! 0
     = - 32768
   \<and> real_of_int (sint (signed_drop_bit 14 (0x20000000 :: 32 word))) = 32768"
  by (simp add: preprocess_replicate sample16_val_wrap) (simp add: SAMPLES_def)


section \<open>The peak extractor\<close>

lemma find_peak_cong:
  assumes "\<forall>i\<in>{1..<SAMPLES div 2}. v' ! i = v ! i"
  shows "find_peak v' = find_peak v"
  unfolding find_peak_def
  by (rule fold_cong) (use assms in auto)

lemma find_peak_tie_spectrum: "find_peak tie_spectrum = (9000, 70)"
proof -
  obtain p k where pk: "find_peak tie_spectrum = (p, k)" by (cases "find_peak tie_spectrum")
  have inv: "peak_inv tie_spectrum (SAMPLES div 2) (p, k)"
    using find_peak_inv [of tie_spectrum] pk by simp
  have v70: "tie_spectrum ! 70 = 9000" by (simp add: tie_spectrum_def SAMPLES_def)
  have "(70::nat) \<in> {1..<SAMPLES div 2}" by (simp add: SAMPLES_def)
  then have "tie_spectrum ! 70 \<le> p" using peak_inv_bound [OF inv] by blast
  then have p: "9000 \<le> p" using v70 by simp
  then have k: "p = tie_spectrum ! k" "k < SAMPLES div 2" "\<forall>i\<in>{1..<k}. tie_spectrum ! i < p"
    using inv by (auto simp: peak_inv_def)
  have k2: "k = 70 \<or> k = 120"
  proof (rule ccontr)
    assume "\<not> (k = 70 \<or> k = 120)"
    then have "tie_spectrum ! k = 0" using k(2) by (simp add: tie_spectrum_def SAMPLES_def)
    then show False using p k(1) by simp
  qed
  have "k \<noteq> 120"
  proof
    assume "k = 120"
    then have "tie_spectrum ! 70 < p" using k(3) by simp
    then show False using v70 k(1) \<open>k = 120\<close> by (simp add: tie_spectrum_def SAMPLES_def)
  qed
  then have "k = 70" using k2 by simp
  then show ?thesis using pk k(1) v70 by simp
qed

text \<open>
  Claim C4, as the code has it. The scan reads bins 1 to 255 only (an array that agrees
  with \<open>v\<close> on them has the same result). When some scanned bin is positive, the
  result is a scanned bin of maximal magnitude with every lower scanned bin strictly
  smaller, so among equal maxima the lowest index, and the peak is that magnitude. When
  no scanned bin is positive, the result is index 0 with peak 0, the values the scan
  starts from. The dominant frequency is the index times the sample rate over the frame
  size.
\<close>

theorem find_peak_scan:
  "find_peak v = (p, k) \<Longrightarrow>
     ((\<exists>i\<in>{1..<SAMPLES div 2}. 0 < v ! i) \<longrightarrow>
         k \<in> {1..<SAMPLES div 2} \<and> p = v ! k
         \<and> (\<forall>i\<in>{1..<SAMPLES div 2}. v ! i \<le> v ! k)
         \<and> (\<forall>i\<in>{1..<k}. v ! i < v ! k))
     \<and> ((\<forall>i\<in>{1..<SAMPLES div 2}. v ! i \<le> 0) \<longrightarrow> k = 0 \<and> p = 0)
     \<and> (\<forall>v'. (\<forall>i\<in>{1..<SAMPLES div 2}. v' ! i = v ! i) \<longrightarrow> find_peak v' = (p, k))
     \<and> dominantFreq k = real k * real SAMPLE_RATE / real SAMPLES"
proof -
  assume pk: "find_peak v = (p, k)"
  have inv: "peak_inv v (SAMPLES div 2) (p, k)" using find_peak_inv [of v] pk by simp
  have a: "(\<exists>i\<in>{1..<SAMPLES div 2}. 0 < v ! i) \<longrightarrow>
         k \<in> {1..<SAMPLES div 2} \<and> p = v ! k
         \<and> (\<forall>i\<in>{1..<SAMPLES div 2}. v ! i \<le> v ! k)
         \<and> (\<forall>i\<in>{1..<k}. v ! i < v ! k)"
    using inv unfolding peak_inv_def by fastforce
  have b: "(\<forall>i\<in>{1..<SAMPLES div 2}. v ! i \<le> 0) \<longrightarrow> k = 0 \<and> p = 0"
  proof
    assume le: "\<forall>i\<in>{1..<SAMPLES div 2}. v ! i \<le> 0"
    show "k = 0 \<and> p = 0"
    proof (rule ccontr)
      assume "\<not> (k = 0 \<and> p = 0)"
      then have "1 \<le> k" "k < SAMPLES div 2" "p = v ! k" "0 < p"
        using inv by (auto simp: peak_inv_def)
      moreover from this have "v ! k \<le> 0" using le by simp
      ultimately show False by simp
    qed
  qed
  have c: "\<forall>v'. (\<forall>i\<in>{1..<SAMPLES div 2}. v' ! i = v ! i) \<longrightarrow> find_peak v' = (p, k)"
    using find_peak_cong pk by metis
  have d: "dominantFreq k = real k * real SAMPLE_RATE / real SAMPLES"
    by (simp add: dominantFreq_def)
  show ?thesis using a b c d by blast
qed

theorem find_peak_scan_witness:
  "find_peak tie_spectrum = (9000, 70)
   \<and> tie_spectrum ! 70 = 9000 \<and> tie_spectrum ! 120 = 9000
   \<and> (\<exists>i\<in>{1..<SAMPLES div 2}. 0 < tie_spectrum ! i)
   \<and> (70::nat) \<in> {1..<SAMPLES div 2}
   \<and> dominantFreq 70 = real 70 * real SAMPLE_RATE / real SAMPLES"
proof -
  have v: "tie_spectrum ! 70 = 9000" "tie_spectrum ! 120 = 9000"
    by (simp_all add: tie_spectrum_def SAMPLES_def)
  have e: "\<exists>i\<in>{1..<SAMPLES div 2}. 0 < tie_spectrum ! i"
    using v(1) by (intro bexI [of _ 70]) (simp_all add: SAMPLES_def)
  show ?thesis
    using find_peak_scan [OF find_peak_tie_spectrum] e v find_peak_tie_spectrum by blast
qed

text \<open>
  Claim C4 as stated fails on the array of 512 zeros: bins 1 and 2 both hold the maximal
  magnitude, and the index returned is 0, which is neither the lowest of them nor a
  scanned bin.
\<close>

theorem find_peak_all_zero_counterexample:
  "snd (find_peak (replicate SAMPLES 0)) = 0
   \<and> snd (find_peak (replicate SAMPLES 0)) \<notin> {1..<SAMPLES div 2}
   \<and> replicate SAMPLES (0::real) ! 1 = 0 \<and> replicate SAMPLES (0::real) ! 2 = 0"
  by (simp add: find_peak_zero) (simp add: SAMPLES_def)

section \<open>One cycle\<close>

lemma loop_writes:
  "writes (snd (loop FFT inp (s, h))) =
     (if frame_isSnap FFT inp s
      then (clock h + t_read inp + t_fft inp, pin (relay s),
            level_for (relay s) (\<not> state (relay s))) # writes h
      else writes h)"
  by (simp add: loop_cycle cycle_def trigger_hw delay_def add.assoc)

lemma loop_clock:
  "clock (snd (loop FFT inp (s, h))) =
     clock h + t_read inp + t_fft inp + (if frame_isSnap FFT inp s then 320 else 20)"
  by (simp add: loop_cycle cycle_def trigger_hw delay_def add.assoc)

lemma loop_relay:
  "relay (fst (loop FFT inp (s, h))) =
     (if frame_isSnap FFT inp s then (relay s)\<lparr>state := \<not> state (relay s)\<rparr> else relay s)"
  by (simp add: loop_cycle cycle_def trigger_sketch)

lemma loop_vReal:
  "vReal (fst (loop FFT inp (s, h))) = fst (spectrum FFT inp s)"
  "vImag (fst (loop FFT inp (s, h))) = snd (spectrum FFT inp s)"
  by (simp_all add: loop_cycle cycle_def trigger_sketch)

lemma loop_timers:
  "lastSnapTime (fst (loop FFT inp (s, h))) = lastSnapTime s"
  by (simp add: loop_cycle cycle_def trigger_sketch)

lemma spectrum_zero:
  assumes "\<forall>i<SAMPLES. samples inp ! i = 0" "length (vReal s) = SAMPLES" "length (vImag s) = SAMPLES"
  shows "spectrum analyze inp s = (replicate SAMPLES 0, replicate SAMPLES 0)"
proof -
  have "map (\<lambda>i. to_float (sample16 (samples inp ! i))) [0..<SAMPLES] = replicate SAMPLES 0"
    using assms(1) by (intro nth_equalityI) (simp_all add: sample16_zero)
  then have "preprocess (samples inp) (vReal s, vImag s) = (replicate SAMPLES 0, replicate SAMPLES 0)"
    using preprocess_eq [OF assms(2,3), of "samples inp"] by simp
  then show ?thesis by (simp add: spectrum_def analyze_zero)
qed

lemma isSnap_zero: "\<not> isSnap (dominantFreq 0) 0"
  by (simp add: isSnap_def)

lemma frame_isSnap_fixed: "frame_isSnap (fixed_spectrum snap_spectrum) inp s"
  by (simp add: frame_isSnap_def spectrum_def fixed_spectrum_def find_peak_snap_spectrum
      isSnap_def dominantFreq_val)

text \<open>
  Claim C7. With the analyzer of the specification, a frame whose 512 samples are all
  zero has peak magnitude 0 (at index 0) and is not classified as an event; the cycle
  writes no pin and leaves the relay as it was.
\<close>

theorem zero_frame_no_event:
  "\<forall>i<SAMPLES. samples inp ! i = 0 \<Longrightarrow>
   length (vReal s) = SAMPLES \<Longrightarrow> length (vImag s) = SAMPLES \<Longrightarrow>
     find_peak (fst (spectrum analyze inp s)) = (0, 0)
     \<and> \<not> frame_isSnap analyze inp s
     \<and> writes (snd (loop analyze inp (s, h))) = writes h
     \<and> relay (fst (loop analyze inp (s, h))) = relay s"
proof -
  assume a: "\<forall>i<SAMPLES. samples inp ! i = 0" "length (vReal s) = SAMPLES" "length (vImag s) = SAMPLES"
  have sp: "spectrum analyze inp s = (replicate SAMPLES 0, replicate SAMPLES 0)"
    by (rule spectrum_zero [OF a])
  have pk: "find_peak (fst (spectrum analyze inp s)) = (0, 0)"
    by (simp add: sp find_peak_zero)
  have ns: "\<not> frame_isSnap analyze inp s"
    by (simp add: frame_isSnap_def pk isSnap_zero)
  show ?thesis
    using pk ns by (simp add: loop_writes loop_relay)
qed

theorem zero_frame_no_event_witness:
  "length (vReal sketch_init) = SAMPLES \<and> length (vImag sketch_init) = SAMPLES
   \<and> find_peak (fst (spectrum analyze
         \<lparr>i2s_ret = 0, bytesRead = 2048, samples = replicate SAMPLES 0, t_read = 32, t_fft = 5\<rparr>
         sketch_init)) = (0, 0)
   \<and> \<not> frame_isSnap analyze
         \<lparr>i2s_ret = 0, bytesRead = 2048, samples = replicate SAMPLES 0, t_read = 32, t_fft = 5\<rparr>
         sketch_init
   \<and> writes (snd (loop analyze
         \<lparr>i2s_ret = 0, bytesRead = 2048, samples = replicate SAMPLES 0, t_read = 32, t_fft = 5\<rparr>
         (sketch_init, hw_boot))) = []"
proof -
  have a: "\<forall>i<SAMPLES. samples \<lparr>i2s_ret = 0, bytesRead = 2048, samples = replicate SAMPLES 0, t_read = 32, t_fft = 5\<rparr> ! i = 0"
    by simp
  have b: "length (vReal sketch_init) = SAMPLES" "length (vImag sketch_init) = SAMPLES"
    by (simp_all add: sketch_init_def)
  show ?thesis
    using zero_frame_no_event [OF a b, of hw_boot] b by (simp add: hw_boot_def)
qed

text \<open>
  Claim C8. The verdict of a cycle is the classifier applied to the dominant frequency
  and the peak of its frame and to nothing else: two cycles whose frames have the same
  dominant frequency and peak reach the same verdict, and fire or not accordingly,
  whatever the analyzer, the raw frames, the relay state, the timer globals and the
  environments they run in.
\<close>

theorem classifier_pure:
  "find_peak (fst (spectrum FFT inp s)) = (peak, k) \<Longrightarrow>
   find_peak (fst (spectrum FFT' inp' s')) = (peak, k') \<Longrightarrow>
   dominantFreq k' = dominantFreq k \<Longrightarrow>
     frame_isSnap FFT inp s = isSnap (dominantFreq k) peak
     \<and> frame_isSnap FFT' inp' s' = frame_isSnap FFT inp s
     \<and> length (writes (snd (loop FFT inp (s, h))))
         = length (writes h) + (if isSnap (dominantFreq k) peak then 1 else 0)
     \<and> length (writes (snd (loop FFT' inp' (s', h'))))
         = length (writes h') + (if isSnap (dominantFreq k) peak then 1 else 0)"
  by (simp add: frame_isSnap_def loop_writes)

theorem classifier_pure_witness:
  "find_peak (fst (spectrum (fixed_spectrum snap_spectrum)
       \<lparr>i2s_ret = 0, bytesRead = 2048, samples = replicate SAMPLES 0, t_read = 32, t_fft = 5\<rparr>
       sketch_init)) = (7000, 100)
   \<and> find_peak (fst (spectrum (fixed_spectrum snap_spectrum)
       \<lparr>i2s_ret = 0, bytesRead = 2048, samples = replicate SAMPLES 1, t_read = 40, t_fft = 6\<rparr>
       (sketch_init\<lparr>relay := (relay sketch_init)\<lparr>state := True\<rparr>, lastSnapTime := 77,
                     snapCount := 3\<rparr>))) = (7000, 100)
   \<and> isSnap (dominantFreq 100) 7000
   \<and> frame_isSnap (fixed_spectrum snap_spectrum)
       \<lparr>i2s_ret = 0, bytesRead = 2048, samples = replicate SAMPLES 1, t_read = 40, t_fft = 6\<rparr>
       (sketch_init\<lparr>relay := (relay sketch_init)\<lparr>state := True\<rparr>, lastSnapTime := 77,
                     snapCount := 3\<rparr>)
     = frame_isSnap (fixed_spectrum snap_spectrum)
       \<lparr>i2s_ret = 0, bytesRead = 2048, samples = replicate SAMPLES 0, t_read = 32, t_fft = 5\<rparr>
       sketch_init"
proof -
  have a: "find_peak (fst (spectrum (fixed_spectrum snap_spectrum) inp s)) = (7000, 100)" for inp s
    by (simp add: spectrum_def fixed_spectrum_def find_peak_snap_spectrum)
  have b: "dominantFreq 100 = dominantFreq 100" by simp
  have c: "isSnap (dominantFreq 100) 7000" by (simp add: isSnap_def dominantFreq_val)
  show ?thesis
    using classifier_pure [OF a a b,
        of "\<lparr>i2s_ret = 0, bytesRead = 2048, samples = replicate SAMPLES 0, t_read = 32, t_fft = 5\<rparr>"
           sketch_init
           "\<lparr>i2s_ret = 0, bytesRead = 2048, samples = replicate SAMPLES 1, t_read = 40, t_fft = 6\<rparr>"
           "sketch_init\<lparr>relay := (relay sketch_init)\<lparr>state := True\<rparr>, lastSnapTime := 77, snapCount := 3\<rparr>"
           hw_boot hw_boot] a c
    by simp
qed


section \<open>Read failures\<close>

text \<open>
  Claim C5, as the code has it. The status of \<open>i2s_read\<close> and the byte count have no
  influence on a cycle or on any run of cycles: a cycle after a failed read runs every
  stage on what the buffer holds, exactly as after a successful read, and no number of
  failures ends the run.
\<close>

theorem loop_ignores_read_status:
  "loop FFT (inp\<lparr>i2s_ret := e, bytesRead := n\<rparr>) w = loop FFT inp w
   \<and> run FFT (map (\<lambda>i. i\<lparr>i2s_ret := e, bytesRead := n\<rparr>) inps) w = run FFT inps w"
proof -
  have one: "loop FFT (i\<lparr>i2s_ret := e, bytesRead := n\<rparr>) v = loop FFT i v" for i v
    by (cases v) (simp add: loop_def spectrum_def)
  have "run FFT (map (\<lambda>i. i\<lparr>i2s_ret := e, bytesRead := n\<rparr>) inps) v = run FFT inps v" for v
    by (induction inps arbitrary: v) (simp_all add: one)
  then show ?thesis using one by simp
qed

text \<open>
  Claim C5 as stated fails on a read that returns an error and no bytes. With the
  analyzer of the specification and a zero buffer, the cycle overwrites the sample
  array that held ones, so preprocessing and analysis ran; with an analyzer whose
  answer is the snap spectrum, the cycle switches the relay on at 5 ms.
\<close>

theorem failed_read_not_skipped_counterexample:
  "vReal (fst (loop analyze
       \<lparr>i2s_ret = - 1, bytesRead = 0, samples = replicate SAMPLES 0, t_read = 0, t_fft = 5\<rparr>
       (sketch_init\<lparr>vReal := replicate SAMPLES 1\<rparr>, hw_boot))) = replicate SAMPLES 0
   \<and> vReal (sketch_init\<lparr>vReal := replicate SAMPLES 1\<rparr>) ! 0 = 1
   \<and> replicate SAMPLES (0::real) ! 0 = 0
   \<and> state (relay sketch_init) = False
   \<and> state (relay (fst (loop (fixed_spectrum snap_spectrum)
       \<lparr>i2s_ret = - 1, bytesRead = 0, samples = replicate SAMPLES 0, t_read = 0, t_fft = 5\<rparr>
       (sketch_init, hw_boot)))) = True
   \<and> writes (snd (loop (fixed_spectrum snap_spectrum)
       \<lparr>i2s_ret = - 1, bytesRead = 0, samples = replicate SAMPLES 0, t_read = 0, t_fft = 5\<rparr>
       (sketch_init, hw_boot))) = [(5, 20, HIGH)]"
proof -
  have "spectrum analyze
       \<lparr>i2s_ret = - 1, bytesRead = 0, samples = replicate SAMPLES 0, t_read = 0, t_fft = 5\<rparr>
       (sketch_init\<lparr>vReal := replicate SAMPLES 1\<rparr>) = (replicate SAMPLES 0, replicate SAMPLES 0)"
    by (rule spectrum_zero) (simp_all add: sketch_init_def)
  then show ?thesis
    by (simp add: loop_vReal loop_relay loop_writes frame_isSnap_fixed)
       (simp add: sketch_init_def Relay_new_def hw_boot_def level_for_def SAMPLES_def)
qed


section \<open>Debounce\<close>

lemma run_writes:
  "\<exists>new. writes (snd (run FFT inps (s, h))) = new @ writes h
     \<and> sorted_wrt (\<lambda>a b. fst b + 320 \<le> fst a) new
     \<and> (\<forall>x\<in>set new. clock h \<le> fst x \<and> fst x + 320 \<le> clock (snd (run FFT inps (s, h))))
     \<and> clock h \<le> clock (snd (run FFT inps (s, h)))"
proof (induction inps arbitrary: s h)
  case Nil
  show ?case by simp
next
  case (Cons inp inps)
  obtain s1 h1 where w1: "loop FFT inp (s, h) = (s1, h1)" by (cases "loop FFT inp (s, h)")
  let ?hf = "snd (run FFT inps (s1, h1))"
  from Cons.IH [of s1 h1] obtain new where n:
    "writes ?hf = new @ writes h1"
    "sorted_wrt (\<lambda>a b. fst b + 320 \<le> fst a) new"
    "\<forall>x\<in>set new. clock h1 \<le> fst x \<and> fst x + 320 \<le> clock ?hf"
    "clock h1 \<le> clock ?hf"
    by blast
  have run: "run FFT (inp # inps) (s, h) = run FFT inps (s1, h1)" by (simp add: w1)
  have c1: "clock h1 = clock h + t_read inp + t_fft inp + (if frame_isSnap FFT inp s then 320 else 20)"
    using loop_clock [of FFT inp s h] w1 by simp
  have wr: "writes h1 = (if frame_isSnap FFT inp s
      then (clock h + t_read inp + t_fft inp, pin (relay s),
            level_for (relay s) (\<not> state (relay s))) # writes h
      else writes h)"
    using loop_writes [of FFT inp s h] w1 by simp
  show ?case
  proof (cases "frame_isSnap FFT inp s")
    case False
    then have "writes ?hf = new @ writes h" using n(1) wr by simp
    moreover have "\<forall>x\<in>set new. clock h \<le> fst x \<and> fst x + 320 \<le> clock ?hf"
      using n(3) c1 by fastforce
    moreover have "clock h \<le> clock ?hf" using n(4) c1 by simp
    ultimately show ?thesis using n(2) run by auto
  next
    case True
    let ?x = "(clock h + t_read inp + t_fft inp, pin (relay s), level_for (relay s) (\<not> state (relay s)))"
    have h1: "clock h1 = fst ?x + 320" using c1 True by simp
    have "writes ?hf = (new @ [?x]) @ writes h" using n(1) wr True by simp
    moreover have "sorted_wrt (\<lambda>a b. fst b + 320 \<le> fst a) (new @ [?x])"
      using n(2) n(3) h1 by (simp add: sorted_wrt_append)
    moreover have "\<forall>y\<in>set (new @ [?x]). clock h \<le> fst y \<and> fst y + 320 \<le> clock ?hf"
      using n(3) n(4) h1 by fastforce
    moreover have "clock h \<le> clock ?hf" using n(4) c1 by simp
    ultimately show ?thesis using run by metis
  qed
qed

lemma fired_since_append: "writes h' = new @ writes h \<Longrightarrow> fired_since h h' = map fst new"
  by (simp add: fired_since_def)

lemma fired_since_run_sorted:
  "sorted_wrt (\<lambda>a b. b + 320 \<le> a) (fired_since h (snd (run FFT inps (s, h))))"
proof -
  from run_writes [of FFT inps s h] obtain new where n:
    "writes (snd (run FFT inps (s, h))) = new @ writes h"
    "sorted_wrt (\<lambda>a b. fst b + 320 \<le> fst a) new"
    by blast
  show ?thesis
    using n(2) by (simp add: fired_since_append [OF n(1)] sorted_wrt_map)
qed

text \<open>
  Claim C1. Over any run of cycles from any state, whatever the frames and the analyzer
  (so also when every frame classifies as an event), the pin writes made by the run are
  the actuator triggers, and any two of them are more than 300 ms apart: in the list of
  their times, newest first, a later entry plus 300 is below every earlier one.
\<close>

theorem debounce_refractory:
  "i < j \<Longrightarrow> j < length (fired_since h (snd (run FFT inps (s, h)))) \<Longrightarrow>
     fired_since h (snd (run FFT inps (s, h))) ! j + 300
       < fired_since h (snd (run FFT inps (s, h))) ! i"
proof -
  assume ij: "i < j" "j < length (fired_since h (snd (run FFT inps (s, h))))"
  have "fired_since h (snd (run FFT inps (s, h))) ! j + 320
          \<le> fired_since h (snd (run FFT inps (s, h))) ! i"
    using sorted_wrt_nth_less [OF fired_since_run_sorted ij] .
  then show ?thesis by simp
qed

lemma loop_fixed_hw:
  "snd (loop (fixed_spectrum snap_spectrum) inp (s, h)) =
     h\<lparr>clock := clock h + t_read inp + t_fft inp + 320,
       pins := (pins h)(pin (relay s) := level_for (relay s) (\<not> state (relay s))),
       writes := (clock h + t_read inp + t_fft inp, pin (relay s),
                  level_for (relay s) (\<not> state (relay s))) # writes h,
       serial := (if state (relay s) then Relay_closed (pin (relay s))
                  else Relay_opened (pin (relay s))) # Snap_trigger # serial h\<rparr>"
  by (simp add: loop_cycle cycle_def trigger_hw delay_def frame_isSnap_fixed add.assoc)

lemma run_two_fixed:
  "fired_since hw_boot (snd (run (fixed_spectrum snap_spectrum)
      [\<lparr>i2s_ret = 0, bytesRead = 2048, samples = replicate SAMPLES 0, t_read = 32, t_fft = 0\<rparr>,
       \<lparr>i2s_ret = 0, bytesRead = 2048, samples = replicate SAMPLES 0, t_read = 32, t_fft = 0\<rparr>]
      (sketch_init, hw_boot))) = [384, 32]"
proof -
  let ?inp = "\<lparr>i2s_ret = 0, bytesRead = 2048, samples = replicate SAMPLES 0, t_read = 32, t_fft = 0\<rparr>"
  obtain s1 h1 where w1: "loop (fixed_spectrum snap_spectrum) ?inp (sketch_init, hw_boot) = (s1, h1)"
    by (cases "loop (fixed_spectrum snap_spectrum) ?inp (sketch_init, hw_boot)")
  have h1: "clock h1 = 352" "map fst (writes h1) = [32]"
    using loop_fixed_hw [of ?inp sketch_init hw_boot] w1 by (simp_all add: hw_boot_def)
  obtain s2 h2 where w2: "loop (fixed_spectrum snap_spectrum) ?inp (s1, h1) = (s2, h2)"
    by (cases "loop (fixed_spectrum snap_spectrum) ?inp (s1, h1)")
  have h2: "map fst (writes h2) = [384, 32]"
    using loop_fixed_hw [of ?inp s1 h1] w2 h1 by simp
  have r: "run (fixed_spectrum snap_spectrum) [?inp, ?inp] (sketch_init, hw_boot) = (s2, h2)"
    by (simp add: w1 w2)
  have "writes hw_boot = []" by (simp add: hw_boot_def)
  then have "fired_since hw_boot h2 = map fst (writes h2)" by (simp add: fired_since_def)
  then show ?thesis unfolding r using h2 by simp
qed

theorem debounce_refractory_witness:
  "(0::nat) < 1
   \<and> fired_since hw_boot (snd (run (fixed_spectrum snap_spectrum)
      [\<lparr>i2s_ret = 0, bytesRead = 2048, samples = replicate SAMPLES 0, t_read = 32, t_fft = 0\<rparr>,
       \<lparr>i2s_ret = 0, bytesRead = 2048, samples = replicate SAMPLES 0, t_read = 32, t_fft = 0\<rparr>]
      (sketch_init, hw_boot))) = [384, 32]
   \<and> [384, 32 :: nat] ! 1 + 300 < [384, 32] ! 0"
proof -
  let ?inp = "\<lparr>i2s_ret = 0, bytesRead = 2048, samples = replicate SAMPLES 0, t_read = 32, t_fft = 0\<rparr>"
  let ?ts = "fired_since hw_boot (snd (run (fixed_spectrum snap_spectrum) [?inp, ?inp] (sketch_init, hw_boot)))"
  have e: "?ts = [384, 32]" by (rule run_two_fixed)
  have l: "1 < length ?ts" unfolding e by simp
  have z: "(0::nat) < 1" by simp
  have "?ts ! 1 + 300 < ?ts ! 0" by (rule debounce_refractory [OF z l])
  then have "[384, 32 :: nat] ! 1 + 300 < [384, 32] ! 0" unfolding e .
  then show ?thesis using e z by blast
qed

lemma cycle_hw:
  "snd (cycle (d, snap) (s, h)) =
     (if snap then
        h\<lparr>clock := clock h + d + 320,
          pins := (pins h)(pin (relay s) := level_for (relay s) (\<not> state (relay s))),
          writes := (clock h + d, pin (relay s), level_for (relay s) (\<not> state (relay s))) # writes h,
          serial := (if state (relay s) then Relay_closed (pin (relay s))
                     else Relay_opened (pin (relay s))) # Snap_trigger # serial h\<rparr>
      else h\<lparr>clock := clock h + d + 20\<rparr>)"
  by (simp add: cycle_def trigger_hw delay_def)

lemma cycle_sketch:
  "fst (cycle (d, snap) (s, h)) =
     (if snap then s\<lparr>relay := (relay s)\<lparr>state := \<not> state (relay s)\<rparr>, snapCount := 0\<rparr> else s)"
  by (simp add: cycle_def trigger_sketch)

lemma two_event_cycles:
  "fold cycle [(32, True), (32, True)] (sketch_init, hw_boot) = (s2, h2) \<Longrightarrow>
     map fst (writes h2) = [384, 32] \<and> state (relay s2) = False \<and> clock h2 = 704"
proof -
  assume f: "fold cycle [(32, True), (32, True)] (sketch_init, hw_boot) = (s2, h2)"
  obtain s1 h1 where w1: "cycle (32, True) (sketch_init, hw_boot) = (s1, h1)"
    by (cases "cycle (32, True) (sketch_init, hw_boot)")
  have h1: "clock h1 = 352" "map fst (writes h1) = [32]"
    using cycle_hw [of 32 True sketch_init hw_boot] w1 by (simp_all add: hw_boot_def)
  have s1: "state (relay s1) = True"
    using cycle_sketch [of 32 True sketch_init hw_boot] w1 by (simp add: sketch_init_def Relay_new_def)
  have w2: "cycle (32, True) (s1, h1) = (s2, h2)" using f w1 by simp
  have "map fst (writes h2) = [384, 32]" "clock h2 = 704"
    using cycle_hw [of 32 True s1 h1] w2 h1 by simp_all
  moreover have "state (relay s2) = False"
    using cycle_sketch [of 32 True s1 h1] w2 s1 by simp
  ultimately show ?thesis by simp
qed

text \<open>
  Claim C2 as stated fails on two consecutive cycles that both classify as events, each
  taking 32 ms to acquire and analyse. The sketch fires at 32 ms and again at 384 ms:
  it read and classified nothing in between, and the second verdict is acted upon. The
  controller of the claim has its second cycle at 64 ms, refractory, and discards that
  verdict.
\<close>

theorem refractory_polling_counterexample:
  "rev (fired_since hw_boot (snd (fold cycle [(32, True), (32, True)] (sketch_init, hw_boot))))
     = [32, 384]
   \<and> spec_run [(32, True), (32, True)] 0 Armed = [32]"
proof -
  obtain s2 h2 where f: "fold cycle [(32, True), (32, True)] (sketch_init, hw_boot) = (s2, h2)"
    by (cases "fold cycle [(32, True), (32, True)] (sketch_init, hw_boot)")
  have m: "map fst (writes h2) = [384, 32]" using two_event_cycles [OF f] by simp
  have "writes hw_boot = []" by (simp add: hw_boot_def)
  then have "fired_since hw_boot h2 = map fst (writes h2)" by (simp add: fired_since_def)
  then have a: "rev (fired_since hw_boot (snd (fold cycle [(32, True), (32, True)] (sketch_init, hw_boot)))) = [32, 384]"
    unfolding f using m by simp
  have b: "spec_run [(32, True), (32, True)] 0 Armed = [32]"
    by (simp add: spec_cycle_def)
  show ?thesis using a b by blast
qed

text \<open>
  Claim C2, as the code has it. A cycle is acquisition and analysis followed by
  \<open>trigger\<close> on the verdict. It fires exactly when its frame classifies as an event,
  negating the relay state and writing the pin at the time of the verdict; the cycle
  that fires then blocks for 300 ms and the closing 20 ms, any other cycle for the 20 ms
  alone. \<open>lastSnapTime\<close> is never written, and neither it nor \<open>snapCount\<close> has any
  influence on the verdict or on what the cycle does to the environment.
\<close>

theorem loop_blocks_after_trigger:
  "loop FFT inp (s, h) =
     cycle (t_read inp + t_fft inp, frame_isSnap FFT inp s)
       (s\<lparr>vReal := fst (spectrum FFT inp s), vImag := snd (spectrum FFT inp s)\<rparr>, h)
   \<and> writes (snd (loop FFT inp (s, h))) =
     (if frame_isSnap FFT inp s
      then (clock h + t_read inp + t_fft inp, pin (relay s),
            level_for (relay s) (\<not> state (relay s))) # writes h
      else writes h)
   \<and> state (relay (fst (loop FFT inp (s, h)))) = (state (relay s) \<noteq> frame_isSnap FFT inp s)
   \<and> clock (snd (loop FFT inp (s, h))) =
       clock h + t_read inp + t_fft inp + (if frame_isSnap FFT inp s then 300 + 20 else 20)
   \<and> lastSnapTime (fst (loop FFT inp (s, h))) = lastSnapTime s
   \<and> frame_isSnap FFT inp (s\<lparr>lastSnapTime := t, snapCount := c\<rparr>) = frame_isSnap FFT inp s
   \<and> snd (loop FFT inp (s\<lparr>lastSnapTime := t, snapCount := c\<rparr>, h)) = snd (loop FFT inp (s, h))"
proof (intro conjI)
  show "loop FFT inp (s, h) =
     cycle (t_read inp + t_fft inp, frame_isSnap FFT inp s)
       (s\<lparr>vReal := fst (spectrum FFT inp s), vImag := snd (spectrum FFT inp s)\<rparr>, h)"
    by (rule loop_cycle)
  show "writes (snd (loop FFT inp (s, h))) =
     (if frame_isSnap FFT inp s
      then (clock h + t_read inp + t_fft inp, pin (relay s),
            level_for (relay s) (\<not> state (relay s))) # writes h
      else writes h)"
    by (rule loop_writes)
  show "state (relay (fst (loop FFT inp (s, h)))) = (state (relay s) \<noteq> frame_isSnap FFT inp s)"
    by (simp add: loop_relay)
  show "clock (snd (loop FFT inp (s, h))) =
       clock h + t_read inp + t_fft inp + (if frame_isSnap FFT inp s then 300 + 20 else 20)"
    by (simp add: loop_clock)
  show "lastSnapTime (fst (loop FFT inp (s, h))) = lastSnapTime s"
    by (rule loop_timers)
  show e: "frame_isSnap FFT inp (s\<lparr>lastSnapTime := t, snapCount := c\<rparr>) = frame_isSnap FFT inp s"
    by (simp add: frame_isSnap_def spectrum_def)
  show "snd (loop FFT inp (s\<lparr>lastSnapTime := t, snapCount := c\<rparr>, h)) = snd (loop FFT inp (s, h))"
    by (simp add: loop_cycle cycle_hw e)
qed

end
